theory Spec2Isabelle
  imports Complex_Main "HOL-Library.Stream" "HOL-Library.Log_Nat"
begin

section \<open>The Monte Carlo speed test \<open>single_test_run.py\<close>\<close>

text \<open>
  The script estimates Pi by sampling points in the square \<open>[-1, 1] \<times> [-1, 1]\<close> and times
  the estimation. Its effects are the draws from the random generator, the readings of the
  wall clock and the lines printed on standard output; they are threaded through the model as
  an explicit \<open>world\<close>.

  The estimator is compiled by numba: its integers are 64-bit and wrap around, its floats
  are IEEE 754 doubles. The harness is plain Python: its integers are unbounded, its floats
  are the same doubles.
\<close>

subsection \<open>Double-precision numbers\<close>

text \<open>
  A double is a signed magnitude, a signed infinity or a NaN. \<open>Finite negative m\<close> has the
  magnitude \<open>m \<ge> 0\<close>; zero carries a sign like every other number. The result of an
  operation is the exact result rounded to the nearest double, ties to the even mantissa.
\<close>

datatype double = Finite bool real | Infinity bool | NaN

definition round_half_even :: "real \<Rightarrow> int" where
  "round_half_even x =
     (let f = \<lfloor>x\<rfloor>; r = x - of_int f
      in if r < 1 / 2 then f else if 1 / 2 < r then f + 1 else if even f then f else f + 1)"

text \<open>The exponent \<open>e\<close> with \<open>2 ^ e \<le> x < 2 ^ (e + 1)\<close>, for \<open>x > 0\<close>.\<close>

definition binade :: "real \<Rightarrow> int" where
  "binade x = (if 1 \<le> x then bitlen \<lfloor>x\<rfloor> - 1 else - bitlen (\<lceil>1 / x\<rceil> - 1))"

text \<open>
  The distance between the doubles around \<open>x\<close>: 53 significant bits, and the fixed
  spacing \<open>2 ^ (-1074)\<close> of the subnormal numbers below \<open>2 ^ (-1022)\<close>.
\<close>

definition ulp :: "real \<Rightarrow> real" where
  "ulp x = 2 powi (max (binade x) (- 1022) - 52)"

definition round_magnitude :: "real \<Rightarrow> real" where
  "round_magnitude x =
     (if x \<le> 0 then 0 else real_of_int (round_half_even (x / ulp x)) * ulp x)"

text \<open>A magnitude that rounds to \<open>2 ^ 1024\<close> or more overflows to infinity.\<close>

definition to_double :: "bool \<Rightarrow> real \<Rightarrow> double" where
  "to_double negative x =
     (let r = round_magnitude x
      in if 2 ^ 1024 \<le> r then Infinity negative else Finite negative r)"

definition signed_value :: "bool \<Rightarrow> real \<Rightarrow> real" where
  "signed_value negative m = (if negative then - m else m)"

fun double_neg :: "double \<Rightarrow> double" where
  "double_neg (Finite s a) = Finite (\<not> s) a"
| "double_neg (Infinity s) = Infinity (\<not> s)"
| "double_neg NaN = NaN"

fun double_mul :: "double \<Rightarrow> double \<Rightarrow> double" where
  "double_mul (Finite s a) (Finite t b) = to_double (s \<noteq> t) (a * b)"
| "double_mul (Finite s a) (Infinity t) = (if a = 0 then NaN else Infinity (s \<noteq> t))"
| "double_mul (Infinity s) (Finite t b) = (if b = 0 then NaN else Infinity (s \<noteq> t))"
| "double_mul (Infinity s) (Infinity t) = Infinity (s \<noteq> t)"
| "double_mul NaN y = NaN"
| "double_mul x NaN = NaN"

text \<open>An exact sum of zero is \<open>-0\<close> only when both operands are negative.\<close>

fun double_add :: "double \<Rightarrow> double \<Rightarrow> double" where
  "double_add (Finite s a) (Finite t b) =
     (let v = signed_value s a + signed_value t b
      in if v = 0 then Finite (s \<and> t) 0 else to_double (v < 0) \<bar>v\<bar>)"
| "double_add (Finite s a) (Infinity t) = Infinity t"
| "double_add (Infinity s) (Finite t b) = Infinity s"
| "double_add (Infinity s) (Infinity t) = (if s = t then Infinity s else NaN)"
| "double_add NaN y = NaN"
| "double_add x NaN = NaN"

definition double_sub :: "double \<Rightarrow> double \<Rightarrow> double" where
  "double_sub x y = double_add x (double_neg y)"

fun double_div :: "double \<Rightarrow> double \<Rightarrow> double" where
  "double_div (Finite s a) (Finite t b) =
     (if b = 0 then (if a = 0 then NaN else Infinity (s \<noteq> t))
      else to_double (s \<noteq> t) (a / b))"
| "double_div (Finite s a) (Infinity t) = Finite (s \<noteq> t) 0"
| "double_div (Infinity s) (Finite t b) = Infinity (s \<noteq> t)"
| "double_div (Infinity s) (Infinity t) = NaN"
| "double_div NaN y = NaN"
| "double_div x NaN = NaN"

fun double_le :: "double \<Rightarrow> double \<Rightarrow> bool" where
  "double_le (Finite s a) (Finite t b) = (signed_value s a \<le> signed_value t b)"
| "double_le (Finite s a) (Infinity t) = (\<not> t)"
| "double_le (Infinity s) (Finite t b) = s"
| "double_le (Infinity s) (Infinity t) = (s \<or> \<not> t)"
| "double_le NaN y = False"
| "double_le x NaN = False"

definition double_of_int :: "int \<Rightarrow> double" where
  "double_of_int n = to_double (n < 0) (real_of_int \<bar>n\<bar>)"


subsection \<open>64-bit integers\<close>

definition int64_range :: "int \<Rightarrow> bool" where
  "int64_range n = (- (2 ^ 63) \<le> n \<and> n < 2 ^ 63)"

definition wrap64 :: "int \<Rightarrow> int" where
  "wrap64 n = (n + 2 ^ 63) mod 2 ^ 64 - 2 ^ 63"

subsection \<open>Values, errors and the world\<close>

datatype pyval = PyNone | PyFloat double

datatype error =
    KeyError string
  | ZeroDivisionError
  | OverflowError
  | ValueError string
  | ArgumentTypeError string
  | SystemExit int

text \<open>
  A line of standard output. \<open>Estimate v\<close> is the line printed by
  \<open>print("Final Estimation of Pi=", pi_estimate)\<close> for the double \<open>v\<close>, \<open>Text s\<close> is the
  text of a formatted string, and \<open>HelpMessage\<close> stands for the usage and help text that
  the argument parser prints for \<open>-h\<close>.
\<close>

datatype line = Estimate double | Text string | HelpMessage

record world =
  rng :: "double stream"    \<comment> \<open>the successive results of \<open>random.uniform(-1, 1)\<close>\<close>
  clock :: "double stream"  \<comment> \<open>the successive results of \<open>time.time()\<close>\<close>
  out :: "line list"        \<comment> \<open>the lines printed so far\<close>

text \<open>A call either returns a value or raises; both leave a world behind.\<close>

datatype outcome = Returned pyval world | Raised error world

definition random_uniform :: "world \<Rightarrow> double \<times> world" where
  "random_uniform w = (shd (rng w), w\<lparr>rng := stl (rng w)\<rparr>)"

definition time_time :: "world \<Rightarrow> double \<times> world" where
  "time_time w = (shd (clock w), w\<lparr>clock := stl (clock w)\<rparr>)"

definition print :: "line \<Rightarrow> world \<Rightarrow> world" where
  "print l w = w\<lparr>out := out w @ [l]\<rparr>"

subsection \<open>The estimator \<open>estimate_pi_numba\<close>\<close>

text \<open>
  The body of \<open>for _ in range(n_points)\<close>: two draws, the squared radius, the conditional
  increment. The loop runs \<open>k\<close> more times from the counter \<open>within_circle\<close>. The compiled
  \<open>x**2\<close> is the product \<open>x * x\<close>, and the \<open>1\<close> of the comparison is the double \<open>1.0\<close>.
\<close>

fun sample_loop :: "nat \<Rightarrow> int \<Rightarrow> world \<Rightarrow> int \<times> world" where
  "sample_loop 0 within_circle w = (within_circle, w)"
| "sample_loop (Suc k) within_circle w =
     (let (x, w1) = random_uniform w;
          (y, w2) = random_uniform w1;
          radius_squared = double_add (double_mul x x) (double_mul y y)
      in sample_loop k
           (if double_le radius_squared (Finite False 1) then wrap64 (within_circle + 1)
            else within_circle)
           w2)"

text \<open>
  The compiled function takes \<open>n_points\<close> as a 64-bit integer: a call with an integer
  outside this range raises \<open>OverflowError\<close> before the body runs. \<open>range(n_points)\<close> is
  empty for \<open>n_points \<le> 0\<close>. The product \<open>4 * within_circle\<close> is a 64-bit product, both
  operands of the true division are converted to doubles, and the division raises
  \<open>ZeroDivisionError\<close> for \<open>n_points = 0\<close>. The function has no \<open>return\<close> statement.
\<close>

definition estimate_pi_numba :: "int \<Rightarrow> bool \<Rightarrow> world \<Rightarrow> outcome" where
  "estimate_pi_numba n_points show_estimate w =
     (if \<not> int64_range n_points then Raised OverflowError w
      else
        let (within_circle, w1) = sample_loop (nat n_points) 0 w in
        if n_points = 0 then Raised ZeroDivisionError w1
        else
          let pi_estimate =
                double_div (double_of_int (wrap64 (4 * within_circle))) (double_of_int n_points)
          in if \<not> show_estimate then Returned PyNone (print (Estimate pi_estimate) w1)
             else Returned PyNone w1)"

subsection \<open>Formatting\<close>

text \<open>
  The format specifications \<open>:.4f\<close> and \<open>:.2e\<close> round the exact value of a double to the
  nearest decimal with the requested number of digits, ties to even, and keep the sign of a
  negative zero. An integer formatted with \<open>:.2e\<close> is first converted to a double, which
  raises \<open>OverflowError\<close> when the integer is too large.
\<close>

definition digit_char :: "int \<Rightarrow> char" where
  "digit_char d = char_of (48 + d)"


text \<open>The decimal digits of a natural number.\<close>

function show_int :: "int \<Rightarrow> string" where
  "show_int n = (if n < 10 then [digit_char n] else show_int (n div 10) @ [digit_char (n mod 10)])"
  by pat_completeness auto
termination
  by (relation "measure nat") auto

declare show_int.simps [simp del]

fun fmt_4f :: "double \<Rightarrow> string" where
  "fmt_4f (Finite negative m) =
     (let q = round_half_even (\<bar>m\<bar> * 10000);
          fraction = q mod 10000
      in (if negative then ''-'' else []) @ show_int (q div 10000) @ ''.'' @
         [digit_char (fraction div 1000), digit_char (fraction div 100 mod 10),
          digit_char (fraction div 10 mod 10), digit_char (fraction mod 10)])"
| "fmt_4f (Infinity negative) = (if negative then ''-inf'' else ''inf'')"
| "fmt_4f NaN = ''nan''"

declare fmt_4f.simps [simp del]

text \<open>The \<open>:.2e\<close> rendering of a double whose magnitude \<open>m\<close> is a whole number.\<close>

definition fmt_2e_whole :: "bool \<Rightarrow> real \<Rightarrow> string" where
  "fmt_2e_whole negative m =
     (let a = \<lfloor>\<bar>m\<bar>\<rfloor>; sign = (if negative then ''-'' else [])
      in if a = 0 then sign @ ''0.00e+00''
         else
           let e = length (show_int a) - 1;
               d = round_half_even (\<bar>m\<bar> * 100 / 10 ^ e);
               (d', e') = (if 1000 \<le> d then (d div 10, e + 1) else (d, e))
           in sign @ [digit_char (d' div 100)] @ ''.'' @
              [digit_char (d' div 10 mod 10), digit_char (d' mod 10)] @ ''e+'' @
              (if e' < 10 then ''0'' else []) @ show_int (int e'))"

text \<open>Python's conversion of an integer to a float.\<close>

definition float_of_int :: "int \<Rightarrow> error + double" where
  "float_of_int n =
     (case double_of_int n of
        Finite s m \<Rightarrow> Inr (Finite s m)
      | Infinity s \<Rightarrow> Inl OverflowError
      | NaN \<Rightarrow> Inl OverflowError)"

definition fmt_2e :: "int \<Rightarrow> error + string" where
  "fmt_2e n =
     (case float_of_int n of
        Inl e \<Rightarrow> Inl e
      | Inr (Finite s m) \<Rightarrow> Inr (fmt_2e_whole s m)
      | Inr d \<Rightarrow> Inr (fmt_4f d))"

subsection \<open>The harness \<open>run_test\<close>\<close>

text \<open>
  \<open>estimate_pi_cython.estimate_pi\<close> comes from a Cython module that the script imports;
  the harness takes it as the parameter \<open>cy\<close>.
\<close>

type_synonym estimator = "int \<Rightarrow> bool \<Rightarrow> world \<Rightarrow> outcome"

definition fcns :: "estimator \<Rightarrow> string \<rightharpoonup> estimator" where
  "fcns cy = [''numba'' \<mapsto> estimate_pi_numba, ''cython'' \<mapsto> cy]"

text \<open>One iteration of the loop: \<open>fcns[jit](n_points, only_time)\<close>.\<close>

definition call_estimator :: "estimator \<Rightarrow> string \<Rightarrow> int \<Rightarrow> bool \<Rightarrow> world \<Rightarrow> outcome" where
  "call_estimator cy jit n_points only_time w =
     (case fcns cy jit of
        None \<Rightarrow> Raised (KeyError jit) w
      | Some f \<Rightarrow> f n_points only_time w)"

text \<open>\<open>for _ in range(n_repeats)\<close>: the body runs \<open>k\<close> more times unless it raises.\<close>

fun repeat_loop :: "nat \<Rightarrow> (world \<Rightarrow> outcome) \<Rightarrow> world \<Rightarrow> outcome" where
  "repeat_loop 0 body w = Returned PyNone w"
| "repeat_loop (Suc k) body w =
     (case body w of
        Raised e w' \<Rightarrow> Raised e w'
      | Returned _ w' \<Rightarrow> repeat_loop k body w')"

text \<open>
  The average \<open>(time.time() - start_time)/n_repeats\<close>: the clock is read and the start time
  subtracted; the division converts \<open>n_repeats\<close> to a float, which raises \<open>OverflowError\<close>
  when it is too large, and raises \<open>ZeroDivisionError\<close> for \<open>n_repeats = 0\<close>.
\<close>

definition average_time :: "double \<Rightarrow> int \<Rightarrow> world \<Rightarrow> (error + double) \<times> world" where
  "average_time start_time n_repeats w =
     (let (t, w1) = time_time w;
          elapsed = double_sub t start_time
      in case float_of_int n_repeats of
           Inl e \<Rightarrow> (Inl e, w1)
         | Inr d \<Rightarrow>
             if n_repeats = 0 then (Inl ZeroDivisionError, w1)
             else (Inr (double_div elapsed d), w1))"

text \<open>The two branches of \<open>if only_time\<close> after the loop, from the start time.\<close>

definition report_time :: "int \<Rightarrow> int \<Rightarrow> bool \<Rightarrow> double \<Rightarrow> world \<Rightarrow> outcome" where
  "report_time n_points n_repeats only_time start_time w =
     (if only_time then
        (case average_time start_time n_repeats w of
           (Inl e, w1) \<Rightarrow> Raised e w1
         | (Inr avg, w1) \<Rightarrow> Returned PyNone (print (Text (fmt_4f avg)) w1))
      else
        (case fmt_2e n_points of
           Inl e \<Rightarrow> Raised e w
         | Inr s \<Rightarrow>
             let w1 = print (Text (''Test run was done with '' @ s)) w in
             case average_time start_time n_repeats w1 of
               (Inl e, w2) \<Rightarrow> Raised e w2
             | (Inr avg, w2) \<Rightarrow>
                 Returned PyNone
                   (print (Text (''Estimating pi took '' @ fmt_4f avg @ '' seconds per run.''))
                      w2)))"

definition run_test :: "estimator \<Rightarrow> int \<Rightarrow> int \<Rightarrow> bool \<Rightarrow> string \<Rightarrow> world \<Rightarrow> outcome" where
  "run_test cy n_points n_repeats only_time jit w =
     (let (start_time, w1) = time_time w in
      case repeat_loop (nat n_repeats) (call_estimator cy jit n_points only_time) w1 of
        Raised e w2 \<Rightarrow> Raised e w2
      | Returned _ w2 \<Rightarrow> report_time n_points n_repeats only_time start_time w2)"

subsection \<open>Argument validation and \<open>main\<close>\<close>















subsection \<open>Observations and notions of the specification\<close>

fun world_of :: "outcome \<Rightarrow> world" where
  "world_of (Returned v w) = w"
| "world_of (Raised e w) = w"

fun returned_value :: "outcome \<Rightarrow> pyval option" where
  "returned_value (Returned v w) = Some v"
| "returned_value (Raised e w) = None"


text \<open>The world after \<open>k\<close> draws from the generator.\<close>

definition after_draws :: "nat \<Rightarrow> world \<Rightarrow> world" where
  "after_draws k w = w\<lparr>rng := sdrop k (rng w)\<rparr>"

text \<open>
  The specification's estimator: the first \<open>n\<close> points \<open>(x, y)\<close> of a random stream, the
  points with \<open>x*x + y*y \<le> 1\<close> in double arithmetic, their number, and
  \<open>4 * counter / n_points\<close> with the 64-bit product and the division of doubles.
\<close>

fun points :: "nat \<Rightarrow> double stream \<Rightarrow> (double \<times> double) list" where
  "points 0 g = []"
| "points (Suc k) g = (shd g, shd (stl g)) # points k (stl (stl g))"

definition inside_circle :: "double \<times> double \<Rightarrow> bool" where
  "inside_circle p =
     double_le (double_add (double_mul (fst p) (fst p)) (double_mul (snd p) (snd p)))
       (Finite False 1)"

definition counter :: "nat \<Rightarrow> double stream \<Rightarrow> nat" where
  "counter n g = length (filter inside_circle (points n g))"

definition estimate_value :: "int \<Rightarrow> double stream \<Rightarrow> double" where
  "estimate_value n_points g =
     double_div (double_of_int (wrap64 (4 * int (counter (nat n_points) g))))
       (double_of_int n_points)"

text \<open>The estimates of \<open>k\<close> successive runs, each on the draws that follow the previous run's.\<close>

fun run_estimates :: "nat \<Rightarrow> int \<Rightarrow> double stream \<Rightarrow> double list" where
  "run_estimates 0 n_points g = []"
| "run_estimates (Suc k) n_points g =
     estimate_value n_points g # run_estimates k n_points (sdrop (2 * nat n_points) g)"




text \<open>
  A world to run the script in: the generator alternates between the point
  \<open>(1/2, 1/2)\<close>, inside the circle, and the point \<open>(1, 1)\<close>, outside; the clock advances by
  half a second between two readings; nothing has been printed.
\<close>

definition test_world :: world where
  "test_world =
     \<lparr>rng = cycle [Finite False (1 / 2), Finite False (1 / 2), Finite False 1, Finite False 1],
      clock = smap (Finite False) (siterate (\<lambda>t. t + 1 / 2) 100),
      out = []\<rparr>"

text \<open>A world whose generator only yields the origin, which is inside the circle.\<close>

definition origin_world :: world where
  "origin_world =
     \<lparr>rng = sconst (Finite False 0),
      clock = smap (Finite False) (siterate (\<lambda>t. t + 1 / 2) 100),
      out = []\<rparr>"

section \<open>Properties\<close>

subsection \<open>Rounding to an integer\<close>

lemma round_half_even_of_int: "round_half_even (of_int i) = i"
  by (simp add: round_half_even_def)

lemma round_half_even_cases:
  "round_half_even x = \<lfloor>x\<rfloor> \<or> round_half_even x = \<lfloor>x\<rfloor> + 1"
  by (simp add: round_half_even_def Let_def)

lemma round_half_even_floor_le: "\<lfloor>x\<rfloor> \<le> round_half_even x"
  using round_half_even_cases [of x] by auto

lemma round_half_even_le_ceil: "round_half_even x \<le> \<lfloor>x\<rfloor> + 1"
  using round_half_even_cases [of x] by auto

lemma round_half_even_mono:
  assumes "x \<le> y"
  shows "round_half_even x \<le> round_half_even y"
proof (cases "\<lfloor>x\<rfloor> = \<lfloor>y\<rfloor>")
  case True
  with assms have "x - of_int \<lfloor>x\<rfloor> \<le> y - of_int \<lfloor>y\<rfloor>" by simp
  with True show ?thesis
    by (auto simp: round_half_even_def Let_def)
next
  case False
  with assms have "\<lfloor>x\<rfloor> < \<lfloor>y\<rfloor>"
    using floor_mono [of x y] by linarith
  then have "round_half_even x \<le> \<lfloor>y\<rfloor>"
    using round_half_even_le_ceil [of x] by linarith
  then show ?thesis
    using round_half_even_floor_le [of y] by linarith
qed

lemma round_half_even_le: "x \<le> of_int k \<Longrightarrow> round_half_even x \<le> k"
  using round_half_even_mono [of x "of_int k"] by (simp add: round_half_even_of_int)

lemma round_half_even_ge: "of_int k \<le> x \<Longrightarrow> k \<le> round_half_even x"
  using round_half_even_mono [of "of_int k" x] by (simp add: round_half_even_of_int)

subsection \<open>Binades\<close>

lemma binade_bounds:
  assumes "0 < x"
  shows "2 powi binade x \<le> x \<and> x < 2 powi (binade x + 1)"
proof (cases "1 \<le> x")
  case True
  define b where "b = bitlen \<lfloor>x\<rfloor>"
  from True have pos: "0 < \<lfloor>x\<rfloor>" by simp
  from bitlen_bounds [OF pos] have lo: "2 ^ nat (b - 1) \<le> \<lfloor>x\<rfloor>" and hi: "\<lfloor>x\<rfloor> < 2 ^ nat b"
    by (simp_all add: b_def)
  from pos have b1: "1 \<le> b"
    unfolding b_def using bitlen_eq_zero_iff [of "\<lfloor>x\<rfloor>"] bitlen_nonneg [of "\<lfloor>x\<rfloor>"] by linarith
  from lo have "real_of_int (2 ^ nat (b - 1)) \<le> real_of_int \<lfloor>x\<rfloor>"
    by (simp only: of_int_le_iff)
  then have lo': "2 ^ nat (b - 1) \<le> x" by (simp add: le_floor_iff)
  from hi have "\<lfloor>x\<rfloor> + 1 \<le> 2 ^ nat b" by simp
  then have "real_of_int (\<lfloor>x\<rfloor> + 1) \<le> real_of_int (2 ^ nat b)"
    by (simp only: of_int_le_iff)
  then have hi': "x < 2 ^ nat b" by (simp add: floor_less_iff) linarith
  have "binade x = b - 1" using True by (simp add: binade_def b_def)
  moreover have "(2::real) powi (b - 1) = 2 ^ nat (b - 1)" using b1 by (simp add: power_int_def)
  moreover have "(2::real) powi (b - 1 + 1) = 2 ^ nat b" using b1 by (simp add: power_int_def)
  ultimately show ?thesis using lo' hi' by simp
next
  case False
  define y where "y = 1 / x"
  define m where "m = \<lceil>y\<rceil> - 1"
  define k where "k = bitlen m"
  from False assms have y1: "1 < y" by (simp add: y_def)
  then have "2 \<le> \<lceil>y\<rceil>" by (simp add: le_ceiling_iff)
  then have mpos: "0 < m" by (simp add: m_def)
  have my: "real_of_int m < y" "y \<le> real_of_int m + 1"
    unfolding m_def using ceiling_correct [of y] by simp_all
  from bitlen_bounds [OF mpos] have lo: "2 ^ nat (k - 1) \<le> m" and hi: "m < 2 ^ nat k"
    by (simp_all add: k_def)
  from mpos have k1: "1 \<le> k"
    unfolding k_def using bitlen_eq_zero_iff [of m] bitlen_nonneg [of m] by linarith
  from lo have "(2::real) ^ nat (k - 1) \<le> real_of_int m"
    by (metis of_int_le_iff of_int_numeral of_int_power)
  with my have ylo: "2 ^ nat (k - 1) < y" by linarith
  from hi have "m + 1 \<le> 2 ^ nat k" by simp
  then have "real_of_int (m + 1) \<le> (2::real) ^ nat k"
    by (metis of_int_le_iff of_int_numeral of_int_power)
  with my have yhi: "y \<le> 2 ^ nat k" by simp
  have b: "binade x = - k" using False by (simp add: binade_def k_def m_def y_def)
  have p1: "(2::real) powi (- k) = 1 / 2 ^ nat k"
    using k1 by (simp add: power_int_minus power_int_def field_simps)
  have p2: "(2::real) powi (1 - k) = 1 / 2 ^ nat (k - 1)"
  proof -
    have "1 - k = - (k - 1)" by simp
    then show ?thesis using k1 by (simp only: power_int_minus) (simp add: power_int_def field_simps)
  qed
  from yhi assms have "1 / 2 ^ nat k \<le> x"
    by (simp add: y_def field_simps)
  moreover from ylo assms have "x < 1 / 2 ^ nat (k - 1)"
    by (simp add: y_def field_simps)
  ultimately show ?thesis by (simp add: b p1 p2)
qed

lemma binade_unique:
  assumes "0 < x" and "2 powi e \<le> x" and "x < 2 powi (e + 1)"
  shows "binade x = e"
proof -
  from binade_bounds [OF assms(1)] have b: "2 powi binade x \<le> x" "x < 2 powi (binade x + 1)"
    by simp_all
  have "(2::real) powi e < 2 powi (binade x + 1)" using assms(2) b(2) by linarith
  then have "e < binade x + 1"
    by (metis linorder_not_less one_le_numeral power_int_increasing)
  moreover have "(2::real) powi binade x < 2 powi (e + 1)" using assms(3) b(1) by linarith
  then have "binade x < e + 1"
    by (metis linorder_not_less one_le_numeral power_int_increasing)
  ultimately show ?thesis by simp
qed

lemma binade_mono:
  assumes "0 < x" and "x \<le> y"
  shows "binade x \<le> binade y"
proof -
  from assms have y: "0 < y" by simp
  from binade_bounds [OF assms(1)] binade_bounds [OF y] assms(2)
  have "(2::real) powi binade x < 2 powi (binade y + 1)" by linarith
  then have "binade x < binade y + 1"
    by (metis linorder_not_less one_le_numeral power_int_increasing)
  then show ?thesis by simp
qed


subsection \<open>Rounding a magnitude\<close>

lemma ulp_pos: "0 < ulp x"
  by (simp add: ulp_def)

lemma round_magnitude_nonneg: "0 \<le> round_magnitude x"
proof (cases "x \<le> 0")
  case True
  then show ?thesis by (simp add: round_magnitude_def)
next
  case False
  then have "0 \<le> x / ulp x" using ulp_pos [of x] by simp
  then have "0 \<le> round_half_even (x / ulp x)"
    using round_half_even_ge [of 0 "x / ulp x"] by simp
  with False show ?thesis
    using ulp_pos [of x] by (simp add: round_magnitude_def)
qed

lemma round_magnitude_exact:
  assumes "0 < x" and "x / ulp x = of_int j"
  shows "round_magnitude x = x"
proof -
  have "round_half_even (x / ulp x) = j"
    by (simp add: assms(2) round_half_even_of_int)
  then have "round_magnitude x = of_int j * ulp x"
    using assms(1) by (simp add: round_magnitude_def)
  also have "\<dots> = x"
    using assms(2) ulp_pos [of x] by (simp add: field_simps)
  finally show ?thesis .
qed

lemma binade_pow2: "binade (2 powi k) = k"
  by (rule binade_unique) (simp_all add: power_int_strict_increasing)

lemma pow2_div_ulp: "(2::real) powi (e + d) / 2 powi (e - 52) = 2 powi (d + 52)"
proof -
  have "(2::real) powi (e + d) / 2 powi (e - 52) = 2 powi (e + d - (e - 52))"
    by (rule power_int_diff [symmetric]) simp
  then show ?thesis by (simp add: add.commute)
qed

lemma pow2_times_ulp: "(2::real) powi (d + 52) * 2 powi (e - 52) = 2 powi (e + d)"
proof -
  have "(2::real) powi (d + 52) * 2 powi (e - 52) = 2 powi (d + 52 + (e - 52))"
    by (rule power_int_add [symmetric]) simp
  then show ?thesis by (simp add: add.commute)
qed

lemma round_magnitude_pow2:
  assumes "- 1022 \<le> k"
  shows "round_magnitude (2 powi k) = 2 powi k"
proof (rule round_magnitude_exact)
  show "(0::real) < 2 powi k" by simp
  from assms have u: "ulp (2 powi k) = 2 powi (k - 52)"
    by (simp add: ulp_def binade_pow2 max_def)
  have "(2::real) powi k / ulp (2 powi k) = 2 powi (0 + 52)"
    unfolding u using pow2_div_ulp [of k 0] by simp
  then show "(2::real) powi k / ulp (2 powi k) = of_int (2 ^ 52)"
    by simp
qed

lemma round_magnitude_le_pow2:
  assumes "0 < x" and "x < 2 powi (max (binade x) (- 1022) + 1)"
  shows "round_magnitude x \<le> 2 powi (max (binade x) (- 1022) + 1)"
proof -
  define e where "e = max (binade x) (- 1022)"
  have u: "ulp x = 2 powi (e - 52)" by (simp add: ulp_def e_def)
  from assms(2) have "x \<le> 2 powi (e + 1)" by (simp add: e_def)
  then have "x / 2 powi (e - 52) \<le> 2 powi (e + 1) / 2 powi (e - 52)"
    by (rule divide_right_mono) simp
  then have "x / ulp x \<le> 2 powi (1 + 52)"
    by (simp only: u pow2_div_ulp)
  then have "x / ulp x \<le> of_int (2 ^ 53)" by simp
  then have "round_half_even (x / ulp x) \<le> 2 ^ 53"
    by (rule round_half_even_le)
  then have "real_of_int (round_half_even (x / ulp x)) \<le> (2::real) ^ 53"
    by (metis of_int_le_iff of_int_numeral of_int_power)
  then have "real_of_int (round_half_even (x / ulp x)) \<le> 2 powi (1 + 52)"
    by simp
  then have "real_of_int (round_half_even (x / ulp x)) * 2 powi (e - 52) \<le>
      2 powi (1 + 52) * 2 powi (e - 52)"
    by (rule mult_right_mono) simp
  then have "round_magnitude x \<le> 2 powi (e + 1)"
    using assms(1) by (simp only: pow2_times_ulp) (simp add: round_magnitude_def u)
  then show ?thesis by (simp add: e_def)
qed

lemma round_magnitude_ge_pow2:
  assumes "0 < x" and "- 1022 \<le> binade x"
  shows "2 powi binade x \<le> round_magnitude x"
proof -
  define e where "e = binade x"
  have u: "ulp x = 2 powi (e - 52)" using assms(2) by (simp add: ulp_def e_def max_def)
  from binade_bounds [OF assms(1)] have "2 powi (e + 0) \<le> x" by (simp add: e_def)
  then have "2 powi (e + 0) / 2 powi (e - 52) \<le> x / 2 powi (e - 52)"
    by (rule divide_right_mono) simp
  then have "2 powi (0 + 52) \<le> x / ulp x"
    by (simp only: u pow2_div_ulp)
  then have "of_int (2 ^ 52) \<le> x / ulp x" by simp
  then have "2 ^ 52 \<le> round_half_even (x / ulp x)"
    by (rule round_half_even_ge)
  then have "(2::real) ^ 52 \<le> real_of_int (round_half_even (x / ulp x))"
    by (metis of_int_le_iff of_int_numeral of_int_power)
  then have "2 powi (0 + 52) \<le> real_of_int (round_half_even (x / ulp x))"
    by simp
  then have "2 powi (0 + 52) * 2 powi (e - 52) \<le>
      real_of_int (round_half_even (x / ulp x)) * 2 powi (e - 52)"
    by (rule mult_right_mono) simp
  then have "2 powi (e + 0) \<le> round_magnitude x"
    using assms(1) by (simp only: pow2_times_ulp) (simp add: round_magnitude_def u)
  then show ?thesis by (simp add: e_def)
qed

lemma round_magnitude_mono:
  assumes "x \<le> y"
  shows "round_magnitude x \<le> round_magnitude y"
proof (cases "0 < x")
  case False
  then show ?thesis
    using round_magnitude_nonneg [of y] by (simp add: round_magnitude_def)
next
  case True
  with assms have y: "0 < y" by simp
  define ex where "ex = max (binade x) (- 1022)"
  define ey where "ey = max (binade y) (- 1022)"
  have le: "ex \<le> ey"
    using binade_mono [OF True assms] by (simp add: ex_def ey_def)
  show ?thesis
  proof (cases "ex = ey")
    case True
    then have u: "ulp x = ulp y" by (simp add: ulp_def ex_def ey_def)
    have "x / ulp y \<le> y / ulp y"
      using assms ulp_pos [of y] by (intro divide_right_mono) simp_all
    then have "round_half_even (x / ulp y) \<le> round_half_even (y / ulp y)"
      by (rule round_half_even_mono)
    then have "real_of_int (round_half_even (x / ulp y)) * ulp y \<le>
        real_of_int (round_half_even (y / ulp y)) * ulp y"
      using ulp_pos [of y] by (simp add: mult_right_mono)
    with \<open>0 < x\<close> y show ?thesis by (simp add: round_magnitude_def u)
  next
    case False
    with le have lt: "ex < ey" by simp
    then have biny: "ey = binade y" "- 1022 \<le> binade y"
      by (auto simp: ex_def ey_def max_def split: if_splits)
    have "x < 2 powi (binade x + 1)"
      using binade_bounds [OF \<open>0 < x\<close>] by simp
    also have "\<dots> \<le> 2 powi (ex + 1)"
      by (rule power_int_increasing) (simp_all add: ex_def)
    finally have "round_magnitude x \<le> 2 powi (ex + 1)"
      using round_magnitude_le_pow2 [OF \<open>0 < x\<close>] by (simp add: ex_def)
    also have "\<dots> \<le> 2 powi ey"
      using lt by (intro power_int_increasing) simp_all
    also have "\<dots> \<le> round_magnitude y"
      unfolding biny(1) using y biny(2) by (rule round_magnitude_ge_pow2)
    finally show ?thesis .
  qed
qed

lemma round_magnitude_scale4:
  assumes "0 < x" and "- 1022 \<le> binade x"
  shows "round_magnitude (4 * x) = 4 * round_magnitude x"
proof -
  have four: "(4::real) = 2 powi 2" by simp
  from binade_bounds [OF assms(1)]
  have "2 powi (binade x + 2) \<le> 4 * x" "4 * x < 2 powi (binade x + 2 + 1)"
    by (simp_all add: power_int_add)
  with assms(1) have b: "binade (4 * x) = binade x + 2"
    by (intro binade_unique) simp_all
  have "ulp (4 * x) = 2 powi (binade x - 52 + 2)"
    using assms(2) by (simp add: ulp_def b max_def add.commute)
  also have "\<dots> = 2 powi (binade x - 52) * 4"
    by (subst power_int_add) simp_all
  also have "\<dots> = 4 * ulp x"
    using assms(2) by (simp add: ulp_def max_def)
  finally have u: "ulp (4 * x) = 4 * ulp x" .
  show ?thesis
    using assms(1) by (simp add: round_magnitude_def u)
qed

lemma round_magnitude_of_int_ge1:
  assumes "1 \<le> n"
  shows "1 \<le> round_magnitude (real_of_int n)"
proof -
  have "round_magnitude (2 powi 0) \<le> round_magnitude (real_of_int n)"
    using assms by (intro round_magnitude_mono) simp
  then show ?thesis
    using round_magnitude_pow2 [of 0] by simp
qed


lemma round_magnitude_zero: "round_magnitude 0 = 0"
  by (simp add: round_magnitude_def)


subsection \<open>Conversions\<close>

lemma to_double_finite:
  "round_magnitude x < 2 ^ 1024 \<Longrightarrow> to_double s x = Finite s (round_magnitude x)"
  by (simp add: to_double_def Let_def)

lemma to_double_pow2:
  assumes "- 1022 \<le> k" and "k \<le> 1023"
  shows "to_double s (2 powi k) = Finite s (2 powi k)"
proof -
  have "(2::real) powi k \<le> 2 powi 1023"
    using assms(2) by (intro power_int_increasing) simp_all
  then have "(2::real) powi k < 2 ^ 1024" by simp
  then show ?thesis
    using assms(1) by (simp add: to_double_finite round_magnitude_pow2)
qed

lemma round_magnitude_le_bound:
  assumes "x \<le> 2 powi k" and "- 1022 \<le> k"
  shows "round_magnitude x \<le> 2 powi k"
  using round_magnitude_mono [OF assms(1)] round_magnitude_pow2 [OF assms(2)] by simp

lemma double_of_int_nonneg:
  assumes "0 \<le> n" and "n \<le> 2 ^ 1023"
  shows "double_of_int n = Finite False (round_magnitude (real_of_int n))"
proof -
  from assms(2) have "real_of_int n \<le> 2 ^ 1023"
    by (metis of_int_le_iff of_int_numeral of_int_power)
  then have "real_of_int n \<le> 2 powi 1023" by simp
  then have "round_magnitude (real_of_int n) \<le> 2 powi 1023"
    by (rule round_magnitude_le_bound) simp
  then have "round_magnitude (real_of_int n) < 2 ^ 1024" by simp
  with assms(1) show ?thesis
    by (simp add: double_of_int_def to_double_finite)
qed

lemma float_of_int_pos:
  assumes "0 < n" and "n \<le> 2 ^ 1023"
  shows "float_of_int n = Inr (Finite False (round_magnitude (real_of_int n)))"
    and "1 \<le> round_magnitude (real_of_int n)"
  using assms by (simp_all add: float_of_int_def double_of_int_nonneg round_magnitude_of_int_ge1)

subsection \<open>The sampling loop\<close>

lemma wrap64_id: "int64_range n \<Longrightarrow> wrap64 n = n"
  by (simp add: int64_range_def wrap64_def)

lemma sample_loop_counts:
  assumes "int64_range c" and "c + int k < 2 ^ 63"
  shows "sample_loop k c w = (c + int (counter k (rng w)), after_draws (2 * k) w)"
  using assms
proof (induction k arbitrary: c w)
  case 0
  show ?case by (simp add: counter_def after_draws_def)
next
  case (Suc k)
  from Suc.prems have c1: "int64_range (c + 1)" "c + 1 + int k < 2 ^ 63"
    by (simp_all add: int64_range_def)
  from Suc.prems have ck: "c + int k < 2 ^ 63" by simp
  define p where "p = (shd (rng w), shd (stl (rng w)))"
  define w2 where "w2 = w\<lparr>rng := stl (stl (rng w))\<rparr>"
  have step: "sample_loop (Suc k) c w =
      sample_loop k (if inside_circle p then wrap64 (c + 1) else c) w2"
    by (simp add: random_uniform_def inside_circle_def p_def w2_def)
  have pts: "counter (Suc k) (rng w) = (if inside_circle p then 1 else 0) + counter k (rng w2)"
    by (simp add: counter_def p_def w2_def)
  have aft: "after_draws (2 * k) w2 = after_draws (2 * Suc k) w"
    by (simp add: after_draws_def w2_def)
  show ?case
  proof (cases "inside_circle p")
    case True
    with step have "sample_loop (Suc k) c w = sample_loop k (c + 1) w2"
      by (simp add: wrap64_id c1)
    also have "\<dots> = (c + 1 + int (counter k (rng w2)), after_draws (2 * k) w2)"
      using c1 by (rule Suc.IH)
    finally show ?thesis using True by (simp add: pts aft)
  next
    case False
    with step have "sample_loop (Suc k) c w = sample_loop k c w2" by simp
    also have "\<dots> = (c + int (counter k (rng w2)), after_draws (2 * k) w2)"
      using Suc.prems(1) ck by (rule Suc.IH)
    finally show ?thesis using False by (simp add: pts aft)
  qed
qed

lemma length_points: "length (points k g) = k"
  by (induction k arbitrary: g) simp_all

lemma counter_le: "counter k g \<le> k"
  unfolding counter_def using length_filter_le [of inside_circle "points k g"]
  by (simp add: length_points)

lemma sample_loop_numba:
  assumes "int64_range n"
  shows "sample_loop (nat n) 0 w = (int (counter (nat n) (rng w)), after_draws (2 * nat n) w)"
proof -
  have "int64_range 0" by (simp add: int64_range_def)
  moreover from assms have "0 + int (nat n) < 2 ^ 63" by (simp add: int64_range_def)
  ultimately show ?thesis
    using sample_loop_counts [of 0 "nat n" w] by simp
qed

lemma estimate_pi_numba_eq:
  "estimate_pi_numba n b w =
     (if \<not> int64_range n then Raised OverflowError w
      else if n = 0 then Raised ZeroDivisionError w
      else Returned PyNone
        (if b then after_draws (2 * nat n) w
         else print (Estimate (estimate_value n (rng w))) (after_draws (2 * nat n) w)))"
proof (cases "int64_range n")
  case False
  then show ?thesis by (simp add: estimate_pi_numba_def)
next
  case True
  show ?thesis
  proof (cases "n = 0")
    case True
    then show ?thesis
      by (simp add: estimate_pi_numba_def after_draws_def int64_range_def)
  next
    case False
    with \<open>int64_range n\<close> show ?thesis
      unfolding estimate_pi_numba_def sample_loop_numba [OF \<open>int64_range n\<close>] estimate_value_def
      by simp
  qed
qed


subsection \<open>The range of the quotient\<close>

lemma binade_ge_one: "1 \<le> x \<Longrightarrow> 0 \<le> binade x"
  using binade_mono [of 1 x] binade_pow2 [of 0] by simp

lemma quotient_range:
  assumes "0 \<le> a" and "a \<le> 4 * n" and "0 < n" and "n < 2 ^ 61"
  shows "\<exists>r. double_div (double_of_int a) (double_of_int n) = Finite False r \<and> 0 \<le> r \<and> r \<le> 4"
proof -
  define A where "A = round_magnitude (real_of_int a)"
  define N where "N = round_magnitude (real_of_int n)"
  have "(2::int) ^ 61 \<le> 2 ^ 1023" "(4::int) * 2 ^ 61 \<le> 2 ^ 1023" by simp_all
  with assms have n_le: "n \<le> 2 ^ 1023" "a \<le> 2 ^ 1023" by linarith+
  have da: "double_of_int a = Finite False A"
    unfolding A_def using assms(1) n_le(2) by (rule double_of_int_nonneg)
  have dn: "double_of_int n = Finite False N"
    unfolding N_def using assms(3) n_le(1) by (intro double_of_int_nonneg) simp_all
  have N1: "1 \<le> N"
    unfolding N_def using assms(3) by (intro round_magnitude_of_int_ge1) simp
  have A0: "0 \<le> A" unfolding A_def by (rule round_magnitude_nonneg)
  have n1: "1 \<le> real_of_int n" using assms(3) by simp
  have "A \<le> round_magnitude (4 * real_of_int n)"
    unfolding A_def using assms(2) by (intro round_magnitude_mono) (metis of_int_le_iff of_int_mult of_int_numeral)
  also have "\<dots> = 4 * N"
    unfolding N_def using n1 binade_ge_one [OF n1] by (intro round_magnitude_scale4) simp_all
  finally have "A / N \<le> 4" using N1 by (simp add: divide_le_eq)
  then have "A / N \<le> 2 powi 2" by simp
  then have "round_magnitude (A / N) \<le> 2 powi 2"
    by (rule round_magnitude_le_bound) simp
  then have r4: "round_magnitude (A / N) \<le> 4" by simp
  then have "round_magnitude (A / N) < 2 ^ 1024" by simp
  then have "double_div (Finite False A) (Finite False N) = Finite False (round_magnitude (A / N))"
    using N1 by (simp add: to_double_finite)
  with r4 round_magnitude_nonneg [of "A / N"] show ?thesis
    by (auto simp: da dn)
qed

subsection \<open>The harness on the numba estimator\<close>

lemma call_numba: "call_estimator cy ''numba'' n b w = estimate_pi_numba n b w"
  by (simp add: call_estimator_def fcns_def)


lemma numba_call_world:
  assumes "int64_range n" and "n \<noteq> 0"
  shows "estimate_pi_numba n b w =
     Returned PyNone
       (w\<lparr>rng := sdrop (2 * nat n) (rng w),
          out := out w @ (if b then [] else [Estimate (estimate_value n (rng w))])\<rparr>)"
  using assms by (simp add: estimate_pi_numba_eq after_draws_def print_def)

lemma repeat_loop_numba:
  assumes "int64_range n" and "n \<noteq> 0"
  shows "repeat_loop k (call_estimator cy ''numba'' n b) w =
     Returned PyNone
       (w\<lparr>rng := sdrop (2 * nat n * k) (rng w),
          out := out w @ (if b then [] else map Estimate (run_estimates k n (rng w)))\<rparr>)"
proof (induction k arbitrary: w)
  case 0
  show ?case by simp
next
  case (Suc k)
  define w1 where "w1 = w\<lparr>rng := sdrop (2 * nat n) (rng w),
    out := out w @ (if b then [] else [Estimate (estimate_value n (rng w))])\<rparr>"
  have call: "call_estimator cy ''numba'' n b w = Returned PyNone w1"
    unfolding w1_def call_numba using assms by (rule numba_call_world)
  have "repeat_loop (Suc k) (call_estimator cy ''numba'' n b) w =
        repeat_loop k (call_estimator cy ''numba'' n b) w1"
    by (simp only: repeat_loop.simps call outcome.case)
  also have "\<dots> = Returned PyNone
       (w1\<lparr>rng := sdrop (2 * nat n * k) (rng w1),
          out := out w1 @ (if b then [] else map Estimate (run_estimates k n (rng w1)))\<rparr>)"
    by (rule Suc.IH)
  also have "\<dots> = Returned PyNone
       (w\<lparr>rng := sdrop (2 * nat n * Suc k) (rng w),
          out := out w @ (if b then [] else map Estimate (run_estimates (Suc k) n (rng w)))\<rparr>)"
    by (simp add: w1_def)
  finally show ?case .
qed

lemma length_run_estimates: "length (run_estimates k n g) = k"
  by (induction k arbitrary: g) simp_all








subsection \<open>The timing lines\<close>



lemma average_time_eq:
  assumes "0 < n" and "n \<le> 2 ^ 1023"
  shows "average_time t0 n w =
     (Inr (double_div (double_sub (shd (clock w)) t0) (double_of_int n)),
      w\<lparr>clock := stl (clock w)\<rparr>)"
proof -
  have "float_of_int n = Inr (double_of_int n)"
    using float_of_int_pos(1) [OF assms] double_of_int_nonneg [of n] assms by simp
  with assms(1) show ?thesis
    by (simp add: average_time_def time_time_def)
qed

lemma fmt_2e_eq:
  assumes "0 \<le> n" and "n \<le> 2 ^ 1023"
  shows "fmt_2e n = Inr (fmt_2e_whole False (round_magnitude (real_of_int n)))"
  using double_of_int_nonneg [OF assms] by (simp add: fmt_2e_def float_of_int_def)

lemma report_time_eq:
  assumes "0 < r" and "r \<le> 2 ^ 1023" and "0 \<le> n" and "n \<le> 2 ^ 1023"
  shows "report_time n r b t0 w =
     Returned PyNone
       (w\<lparr>clock := stl (clock w),
          out := out w @
            (if b then [Text (fmt_4f (double_div (double_sub (shd (clock w)) t0) (double_of_int r)))]
             else [Text (''Test run was done with '' @
                     fmt_2e_whole False (round_magnitude (real_of_int n))),
                   Text (''Estimating pi took '' @
                     fmt_4f (double_div (double_sub (shd (clock w)) t0) (double_of_int r)) @
                     '' seconds per run.'')])\<rparr>)"
  by (simp add: report_time_def average_time_eq [OF assms(1,2)] fmt_2e_eq [OF assms(3,4)]
      print_def)

lemma run_test_numba:
  assumes "0 < n" and "n < 2 ^ 63" and "0 < r" and "r \<le> 2 ^ 1023"
  shows "run_test cy n r b ''numba'' w =
     Returned PyNone
       (w\<lparr>rng := sdrop (2 * nat n * nat r) (rng w),
          clock := stl (stl (clock w)),
          out := out w @
            (if b then
               [Text (fmt_4f (double_div (double_sub (shd (stl (clock w))) (shd (clock w)))
                  (double_of_int r)))]
             else map Estimate (run_estimates (nat r) n (rng w)) @
               [Text (''Test run was done with '' @
                  fmt_2e_whole False (round_magnitude (real_of_int n))),
                Text (''Estimating pi took '' @
                  fmt_4f (double_div (double_sub (shd (stl (clock w))) (shd (clock w)))
                    (double_of_int r)) @
                  '' seconds per run.'')])\<rparr>)"
proof -
  from assms(1,2) have n: "int64_range n" "n \<noteq> 0" "0 \<le> n"
    by (simp_all add: int64_range_def)
  have "(2::int) ^ 63 \<le> 2 ^ 1023" by simp
  with assms(2) have n_le: "n \<le> 2 ^ 1023" by linarith
  show ?thesis
    by (simp add: run_test_def time_time_def repeat_loop_numba [OF n(1,2)]
        report_time_eq [OF assms(3,4) n(3) n_le])
qed

subsection \<open>Formatting to four decimals\<close>








subsection \<open>Argument validation\<close>









subsection \<open>Concrete doubles\<close>

lemma to_double_quarter: "to_double s (1 / 4) = Finite s (1 / 4)"
  using to_double_pow2 [of "- 2" s] by simp

lemma to_double_half: "to_double s (1 / 2) = Finite s (1 / 2)"
  using to_double_pow2 [of "- 1" s] by (simp add: power_int_minus)

lemma to_double_1: "to_double s 1 = Finite s 1"
  using to_double_pow2 [of 0 s] by simp

lemma to_double_2: "to_double s 2 = Finite s 2"
  using to_double_pow2 [of 1 s] by simp

lemma to_double_4: "to_double s 4 = Finite s 4"
  using to_double_pow2 [of 2 s] by simp

lemma to_double_0: "to_double s 0 = Finite s 0"
  by (simp add: to_double_def round_magnitude_zero)

lemma double_of_int_1: "double_of_int 1 = Finite False 1"
  by (simp add: double_of_int_def to_double_1)

lemma double_of_int_2: "double_of_int 2 = Finite False 2"
  by (simp add: double_of_int_def to_double_2)

lemma double_of_int_4: "double_of_int 4 = Finite False 4"
  by (simp add: double_of_int_def to_double_4)

lemma inside_half: "inside_circle (Finite False (1 / 2), Finite False (1 / 2))"
  by (simp add: inside_circle_def to_double_quarter signed_value_def to_double_half)

lemma outside_one: "\<not> inside_circle (Finite False 1, Finite False 1)"
  by (simp add: inside_circle_def to_double_1 signed_value_def to_double_2)

lemma inside_origin: "inside_circle (Finite False 0, Finite False 0)"
  by (simp add: inside_circle_def to_double_0 signed_value_def)

subsection \<open>The test worlds\<close>

lemma rng_test_world:
  "rng test_world =
     cycle [Finite False (1 / 2), Finite False (1 / 2), Finite False 1, Finite False 1]"
  by (simp add: test_world_def)

lemma out_test_world: "out test_world = []"
  by (simp add: test_world_def)

lemma clock_test_world:
  "shd (clock test_world) = Finite False 100"
  "shd (stl (clock test_world)) = Finite False (201 / 2)"
  by (simp_all add: test_world_def)

lemma points_test_world:
  "points 2 (rng test_world) =
     [(Finite False (1 / 2), Finite False (1 / 2)), (Finite False 1, Finite False 1)]"
  by (simp add: rng_test_world numeral_2_eq_2)

lemma counter_test_world: "counter 2 (rng test_world) = 1"
  by (simp add: counter_def points_test_world inside_half outside_one)

lemma wrap64_4: "wrap64 4 = 4"
  by (simp add: wrap64_def)

lemma estimate_value_test_world: "estimate_value 2 (rng test_world) = Finite False 2"
  by (simp add: estimate_value_def counter_test_world wrap64_4 double_of_int_4 double_of_int_2
      to_double_2)

lemma sdrop_test_world: "sdrop 4 (rng test_world) = rng test_world"
  by (simp add: rng_test_world)


lemma run_estimates_test_world:
  "run_estimates 2 2 (rng test_world) = [Finite False 2, Finite False 2]"
proof -
  have "run_estimates (Suc (Suc 0)) 2 (rng test_world) = [Finite False 2, Finite False 2]"
    by (simp add: estimate_value_test_world sdrop_test_world)
  then show ?thesis
    by (simp only: numeral_2_eq_2)
qed

lemma elapsed_test_world:
  "double_sub (Finite False (201 / 2)) (Finite False 100) = Finite False (1 / 2)"
  by (simp add: double_sub_def signed_value_def to_double_half)

lemma average_test_world:
  "double_div (Finite False (1 / 2)) (double_of_int 1) = Finite False (1 / 2)"
  "double_div (Finite False (1 / 2)) (double_of_int 2) = Finite False (1 / 4)"
  by (simp_all add: double_of_int_1 double_of_int_2 to_double_half to_double_quarter)

lemma round_half_even_5000: "round_half_even 5000 = 5000"
  using round_half_even_of_int [of 5000] by simp

lemma round_half_even_2500: "round_half_even 2500 = 2500"
  using round_half_even_of_int [of 2500] by simp

lemma round_half_even_200: "round_half_even 200 = 200"
  using round_half_even_of_int [of 200] by simp

lemma digit_char_0: "digit_char 0 = CHR ''0''"
  by code_simp

lemma digit_char_2: "digit_char 2 = CHR ''2''"
  by code_simp

lemma digit_char_5: "digit_char 5 = CHR ''5''"
  by code_simp

lemma show_int_0: "show_int 0 = ''0''"
  by (simp add: show_int.simps digit_char_0)

lemma show_int_2: "show_int 2 = ''2''"
  by (simp add: show_int.simps digit_char_2)

lemma fmt_4f_half: "fmt_4f (Finite False (1 / 2)) = ''0.5000''"
  by (simp add: fmt_4f.simps round_half_even_5000 show_int_0 digit_char_0 digit_char_5)

lemma fmt_4f_quarter: "fmt_4f (Finite False (1 / 4)) = ''0.2500''"
  by (simp add: fmt_4f.simps round_half_even_2500 show_int_0 digit_char_0 digit_char_2
      digit_char_5)

lemma round_magnitude_2: "round_magnitude 2 = 2"
  using round_magnitude_pow2 [of 1] by simp

lemma fmt_2e_two: "fmt_2e_whole False (round_magnitude 2) = ''2.00e+00''"
  by (simp add: round_magnitude_2 fmt_2e_whole_def show_int_2 show_int_0 round_half_even_200
      digit_char_0 digit_char_2)

lemma counter_sconst:
  "inside_circle (z, z) \<Longrightarrow> counter k (sconst z) = k"
  by (induction k) (simp_all add: counter_def)

lemma sdrop_sconst: "sdrop k (sconst z) = sconst z"
  by (induction k) simp_all

lemma rng_origin_world: "rng origin_world = sconst (Finite False 0)"
  by (simp add: origin_world_def)

lemma estimate_origin_world:
  "estimate_value (2 ^ 61) (rng origin_world) = Finite True 4"
proof -
  have c: "counter (nat (2 ^ 61)) (rng origin_world) = nat (2 ^ 61)"
    unfolding rng_origin_world using inside_origin by (rule counter_sconst)
  have w: "wrap64 (4 * int (nat (2 ^ 61))) = - (2 ^ 63)"
    by (simp add: wrap64_def)
  have a: "double_of_int (- (2 ^ 63)) = Finite True (2 powi 63)"
    using to_double_pow2 [of 63 True] by (simp add: double_of_int_def)
  have n: "double_of_int (2 ^ 61) = Finite False (2 powi 61)"
    using to_double_pow2 [of 61 False] by (simp add: double_of_int_def)
  show ?thesis
    unfolding estimate_value_def c w a n by (simp add: to_double_4)
qed




lemma after_draws_test_world: "after_draws 4 test_world = test_world"
  by (simp add: after_draws_def sdrop_test_world)








subsection \<open>The estimator\<close>

text \<open>
  C1 (as amended). For every \<open>n_points\<close> with \<open>0 < n_points < 2 ^ 63\<close> the estimator draws
  \<open>2 * n_points\<close> numbers and computes \<open>4 * counter / n_points\<close>, where \<open>counter\<close> is the
  number of sampled points with \<open>x*x + y*y \<le> 1\<close>, the product is a 64-bit product (the exact
  product below \<open>2 ^ 61\<close>) and the quotient is a quotient of doubles. It returns \<open>None\<close>: the
  value is printed when \<open>show_estimate\<close> is false and is dropped otherwise.
\<close>

theorem estimate_pi_numba_computes:
  assumes "0 < n_points" and "n_points < 2 ^ 63"
  shows "estimate_pi_numba n_points show_estimate w =
       Returned PyNone
         (if show_estimate then after_draws (2 * nat n_points) w
          else print
            (Estimate
              (double_div
                (double_of_int
                  (wrap64 (4 * int (length (filter inside_circle (points (nat n_points) (rng w)))))))
                (double_of_int n_points)))
            (after_draws (2 * nat n_points) w)) \<and>
     (n_points < 2 ^ 61 \<longrightarrow>
        wrap64 (4 * int (length (filter inside_circle (points (nat n_points) (rng w))))) =
        4 * int (length (filter inside_circle (points (nat n_points) (rng w)))))"
proof -
  from assms have r: "int64_range n_points" "n_points \<noteq> 0"
    by (simp_all add: int64_range_def)
  have "n_points < 2 ^ 61 \<longrightarrow> int64_range (4 * int (counter (nat n_points) (rng w)))"
    using counter_le [of "nat n_points" "rng w"] assms(1) by (auto simp: int64_range_def)
  then show ?thesis
    using r by (auto simp: estimate_pi_numba_eq estimate_value_def counter_def wrap64_id)
qed

theorem estimate_pi_numba_computes_witness:
  "(0::int) < 2 \<and> (2::int) < 2 ^ 63 \<and> (2::int) < 2 ^ 61 \<and>
   estimate_pi_numba 2 False test_world =
     Returned PyNone (print (Estimate (Finite False 2)) test_world)"
  using estimate_pi_numba_computes [of 2 False test_world]
  by (simp add: points_test_world inside_half outside_one after_draws_test_world
      double_of_int_4 double_of_int_2 to_double_2)

text \<open>
  C1 (as stated) fails: the estimator returns \<open>None\<close>, not the float
  \<open>4 * counter / n_points\<close>.
\<close>

theorem estimate_returns_float_counterexample:
  "returned_value (estimate_pi_numba 2 False test_world) = Some PyNone \<and>
   returned_value (estimate_pi_numba 2 False test_world) \<noteq>
     Some (PyFloat (estimate_value 2 (rng test_world)))"
  by (simp add: estimate_pi_numba_eq int64_range_def)

text \<open>
  C2 (as amended). For \<open>0 < n_points < 2 ^ 63\<close> the counter ends between 0 and
  \<open>n_points\<close>. For \<open>0 < n_points < 2 ^ 61\<close> the product \<open>4 * within_circle\<close> does not wrap
  around, and the estimate \<open>4 * within_circle / n_points\<close>, which the estimator prints, is a
  double in \<open>[0, 4]\<close>.
\<close>

theorem pi_estimate_in_range:
  assumes "0 < n_points" and "n_points < 2 ^ 63"
  shows "let within_circle = fst (sample_loop (nat n_points) 0 w);
             pi_estimate =
               double_div (double_of_int (4 * within_circle)) (double_of_int n_points)
         in 0 \<le> within_circle \<and> within_circle \<le> n_points \<and>
            (n_points < 2 ^ 61 \<longrightarrow>
               double_le (Finite False 0) pi_estimate \<and>
               double_le pi_estimate (Finite False 4) \<and>
               estimate_pi_numba n_points False w =
                 Returned PyNone
                   (print (Estimate pi_estimate) (snd (sample_loop (nat n_points) 0 w))))"
proof -
  from assms have r: "int64_range n_points" "n_points \<noteq> 0"
    by (simp_all add: int64_range_def)
  define c where "c = int (counter (nat n_points) (rng w))"
  have loop: "sample_loop (nat n_points) 0 w = (c, after_draws (2 * nat n_points) w)"
    unfolding c_def using r(1) by (rule sample_loop_numba)
  have c: "0 \<le> c" "c \<le> n_points"
    using counter_le [of "nat n_points" "rng w"] assms(1) by (simp_all add: c_def)
  have small: "double_le (Finite False 0) (double_div (double_of_int (4 * c)) (double_of_int n_points)) \<and>
      double_le (double_div (double_of_int (4 * c)) (double_of_int n_points)) (Finite False 4) \<and>
      estimate_pi_numba n_points False w =
        Returned PyNone
          (print (Estimate (double_div (double_of_int (4 * c)) (double_of_int n_points)))
             (after_draws (2 * nat n_points) w))"
    if lt: "n_points < 2 ^ 61"
  proof -
    from c have "0 \<le> 4 * c" "4 * c \<le> 4 * n_points" by simp_all
    from quotient_range [OF this assms(1) lt] obtain q where
      q: "double_div (double_of_int (4 * c)) (double_of_int n_points) = Finite False q"
        "0 \<le> q" "q \<le> 4"
      by blast
    from c lt have "int64_range (4 * c)" by (simp add: int64_range_def)
    then have "wrap64 (4 * c) = 4 * c" by (rule wrap64_id)
    then have "estimate_value n_points (rng w) =
        double_div (double_of_int (4 * c)) (double_of_int n_points)"
      by (simp add: estimate_value_def c_def)
    with q r show ?thesis
      by (simp add: estimate_pi_numba_eq signed_value_def)
  qed
  show ?thesis
    using c small by (simp add: loop Let_def)
qed

theorem pi_estimate_in_range_witness:
  "(0::int) < 2 \<and> (2::int) < 2 ^ 63 \<and> (2::int) < 2 ^ 61 \<and>
   fst (sample_loop (nat 2) 0 test_world) = 1 \<and>
   double_div (double_of_int (4 * 1)) (double_of_int 2) = Finite False 2 \<and>
   double_le (Finite False 0) (Finite False 2) \<and>
   double_le (Finite False 2) (Finite False 4) \<and>
   estimate_pi_numba 2 False test_world =
     Returned PyNone (print (Estimate (Finite False 2)) test_world)"
proof -
  have loop: "sample_loop 2 0 test_world = (1, test_world)"
    using sample_loop_numba [of 2 test_world]
    by (simp add: int64_range_def counter_test_world after_draws_test_world)
  show ?thesis
    using pi_estimate_in_range [of 2 test_world]
    by (simp add: loop Let_def double_of_int_4 double_of_int_2 to_double_2 signed_value_def)
qed

text \<open>
  C2 (as stated) fails: for \<open>n_points = 2 ^ 61\<close> and points that all fall inside the
  circle the 64-bit product \<open>4 * within_circle\<close> wraps around to \<open>- 2 ^ 63\<close>, and the
  estimate printed is \<open>-4.0\<close>.
\<close>

theorem pi_estimate_range_counterexample:
  "estimate_pi_numba (2 ^ 61) False origin_world =
     Returned PyNone (print (Estimate (Finite True 4)) origin_world) \<and>
   \<not> double_le (Finite False 0) (Finite True 4)"
proof -
  have aft: "after_draws (2 * nat (2 ^ 61)) origin_world = origin_world"
    by (simp add: after_draws_def rng_origin_world sdrop_sconst origin_world_def)
  have "int64_range (2 ^ 61)" "(2::int) ^ 61 \<noteq> 0"
    by (simp_all add: int64_range_def)
  then have "estimate_pi_numba (2 ^ 61) False origin_world =
      Returned PyNone
        (print (Estimate (estimate_value (2 ^ 61) (rng origin_world)))
           (after_draws (2 * nat (2 ^ 61)) origin_world))"
    by (simp only: estimate_pi_numba_eq not_True_eq_False if_False)
  then have "estimate_pi_numba (2 ^ 61) False origin_world =
      Returned PyNone (print (Estimate (Finite True 4)) origin_world)"
    by (simp only: estimate_origin_world aft)
  then show ?thesis
    by (simp add: signed_value_def)
qed



subsection \<open>The harness\<close>

text \<open>
  C3 (as amended). When \<open>only_time\<close> is false, the harness on the numba estimator, with
  \<open>0 < n_points < 2 ^ 63\<close> and \<open>0 < n_repeats \<le> 2 ^ 1023\<close>, prints one estimate line per
  repeat and then exactly two lines: the sample count in scientific notation and the
  sentence that reports the average seconds per run to four decimal places.
\<close>

theorem run_test_output_with_estimates:
  assumes "0 < n_points" and "n_points < 2 ^ 63" and "0 < n_repeats" and "n_repeats \<le> 2 ^ 1023"
  shows "out (world_of (run_test cy n_points n_repeats False ''numba'' w)) =
     out w @ map Estimate (run_estimates (nat n_repeats) n_points (rng w)) @
       [Text (''Test run was done with '' @
          fmt_2e_whole False (round_magnitude (real_of_int n_points))),
        Text (''Estimating pi took '' @
          fmt_4f (double_div (double_sub (shd (stl (clock w))) (shd (clock w)))
            (double_of_int n_repeats)) @
          '' seconds per run.'')] \<and>
     length (run_estimates (nat n_repeats) n_points (rng w)) = nat n_repeats \<and>
     fmt_2e n_points = Inr (fmt_2e_whole False (round_magnitude (real_of_int n_points)))"
proof -
  have "(2::int) ^ 63 \<le> 2 ^ 1023" by simp
  with assms(1,2) have "0 \<le> n_points" "n_points \<le> 2 ^ 1023" by linarith+
  then have "fmt_2e n_points = Inr (fmt_2e_whole False (round_magnitude (real_of_int n_points)))"
    by (rule fmt_2e_eq)
  then show ?thesis
    using assms by (simp add: run_test_numba length_run_estimates)
qed

theorem run_test_output_with_estimates_witness:
  "(0::int) < 2 \<and> (2::int) < 2 ^ 63 \<and> (0::int) < 2 \<and> (2::int) \<le> 2 ^ 1023 \<and>
   out (world_of (run_test estimate_pi_numba 2 2 False ''numba'' test_world)) =
     [Estimate (Finite False 2), Estimate (Finite False 2),
      Text ''Test run was done with 2.00e+00'',
      Text ''Estimating pi took 0.2500 seconds per run.'']"
  using run_test_output_with_estimates [of 2 2 estimate_pi_numba test_world]
  by (simp add: out_test_world clock_test_world run_estimates_test_world fmt_2e_two
      elapsed_test_world average_test_world fmt_4f_quarter)

text \<open>
  C3 (as stated) fails: with \<open>only_time\<close> false a run of two repeats prints four lines,
  the first two of which are the estimates.
\<close>

theorem two_lines_counterexample:
  "out (world_of (run_test estimate_pi_numba 2 2 False ''numba'' test_world)) =
     [Estimate (Finite False 2), Estimate (Finite False 2),
      Text ''Test run was done with 2.00e+00'',
      Text ''Estimating pi took 0.2500 seconds per run.''] \<and>
   length (out (world_of (run_test estimate_pi_numba 2 2 False ''numba'' test_world))) \<noteq> 2"
proof -
  have "run_test estimate_pi_numba 2 2 False ''numba'' test_world =
     Returned PyNone
       (test_world\<lparr>rng := sdrop (2 * nat 2 * nat 2) (rng test_world),
          clock := stl (stl (clock test_world)),
          out := out test_world @
             map Estimate (run_estimates (nat 2) 2 (rng test_world)) @
               [Text (''Test run was done with '' @
                  fmt_2e_whole False (round_magnitude (real_of_int 2))),
                Text (''Estimating pi took '' @
                  fmt_4f (double_div (double_sub (shd (stl (clock test_world)))
                    (shd (clock test_world))) (double_of_int 2)) @
                  '' seconds per run.'')]\<rparr>)"
    using run_test_numba [of 2 2 estimate_pi_numba False test_world] by simp
  then show ?thesis
    by (simp add: out_test_world clock_test_world run_estimates_test_world fmt_2e_two
      elapsed_test_world average_test_world fmt_4f_quarter)
qed








text \<open>
  C10 (as amended). If \<open>run_test\<close> is called with \<open>n_repeats > 0\<close> and a \<open>jit\<close> string
  outside \<open>{"numba", "cython"}\<close>, the lookup \<open>fcns[jit]\<close> of the first iteration raises
  \<open>KeyError\<close>: the start time has been read, nothing has been drawn and nothing printed.
\<close>

theorem run_test_unknown_jit:
  assumes "0 < n_repeats" and "jit \<notin> {''numba'', ''cython''}"
  shows "run_test cy n_points n_repeats only_time jit w =
     Raised (KeyError jit) (w\<lparr>clock := stl (clock w)\<rparr>)"
proof -
  from assms(2) have "fcns cy jit = None"
    by (simp add: fcns_def)
  then have call: "call_estimator cy jit n_points only_time w' = Raised (KeyError jit) w'" for w'
    by (simp add: call_estimator_def)
  from assms(1) obtain k where k: "nat n_repeats = Suc k"
    by (cases "nat n_repeats") auto
  show ?thesis
    by (simp add: run_test_def time_time_def k call)
qed

theorem run_test_unknown_jit_witness:
  "(0::int) < 1 \<and> ''none'' \<notin> {''numba'', ''cython''} \<and>
   run_test estimate_pi_numba 2 1 True ''none'' test_world =
     Raised (KeyError ''none'') (test_world\<lparr>clock := stl (clock test_world)\<rparr>)"
  using run_test_unknown_jit [of 1 "''none''" estimate_pi_numba 2 True test_world]
  by simp

text \<open>
  C10 (as stated) fails when the loop has no iteration: with \<open>n_repeats = 0\<close> the lookup
  is not evaluated, and the call raises \<open>ZeroDivisionError\<close> at the average instead.
\<close>

theorem unknown_jit_key_error_counterexample:
  "run_test estimate_pi_numba 2 0 True ''none'' test_world =
     Raised ZeroDivisionError (test_world\<lparr>clock := stl (stl (clock test_world))\<rparr>) \<and>
   run_test estimate_pi_numba 2 0 True ''none'' test_world \<noteq>
     Raised (KeyError ''none'') (test_world\<lparr>clock := stl (clock test_world)\<rparr>)"
  by (simp add: run_test_def time_time_def report_time_def average_time_def float_of_int_def
      double_of_int_def to_double_0)

subsection \<open>The command line\<close>











end
